theory Spec2Isabelle
  imports
    Complex_Main
    "HOL-Library.Char_ord"
    "HOL-Library.List_Lexorder"
    "HOL-Library.Product_Lexorder"
    "HOL-Library.Multiset"
    "HOL-Library.Signed_Division"
begin

section \<open>Eventures: the map display controller (Map\_display.cpp)\<close>

text \<open>
  The controller keeps three pieces of session state directly on the object
  (\<open>results\<close>, \<open>currIndex\<close>, \<open>activePoints\<close>) and talks to two collaborators: the
  request module (\<open>get_events\<close>) and the map view (graphics overlays, viewpoint).
  The embedding below follows the member functions of \<open>Map_display\<close> one by one.

  C++ \<open>int\<close> is modelled as \<open>int\<close>: every counter of the controller is bounded by the
  number of records held in memory, far below \<open>2^31\<close>. Division and remainder are the
  truncating \<open>sdiv\<close> and \<open>smod\<close> of C++.
\<close>

subsection \<open>Data\<close>

text \<open>One event record: \<open>std::map<std::string, std::string>\<close>.\<close>

type_synonym event = "string \<rightharpoonup> string"

text \<open>\<open>operator[]\<close> of \<open>std::map\<close> yields a default-constructed (empty) string for an
  absent key.\<close>

definition field :: "event \<Rightarrow> string \<Rightarrow> string" where
  "field e k = (case e k of None \<Rightarrow> [] | Some v \<Rightarrow> v)"

text \<open>The key of the map \<open>points\<close>: \<open>std::pair<std::string, std::string>\<close>, ordered
  lexicographically on the pair, each string compared bytewise.\<close>

type_synonym coords = "string \<times> string"

definition coords_of :: "event \<Rightarrow> coords" where
  "coords_of e = (field e ''lat'', field e ''lng'')"

text \<open>Failures of the run: the two exceptions of \<open>std::stod\<close>, and an access of
  \<open>std::vector::operator[]\<close> outside the vector (undefined behaviour in C++, made
  an error value here so that it can be observed).\<close>

datatype error = invalid_argument | out_of_range | vector_out_of_bounds

text \<open>\<open>Point(x, y, wgs84)\<close>: x is the longitude, y the latitude.\<close>

datatype 'd point = Point 'd 'd

text \<open>The graphics put on an overlay: the picture marker carrying the property \<open>id\<close>,
  the white circle and the text with the number of events.\<close>

datatype 'd graphic =
    Marker "'d point" int
  | Circle "'d point"
  | Label "'d point" int

text \<open>A call of \<open>get_events\<close>: without arguments, or with its nine arguments.\<close>

datatype call =
    NoArgs
  | Args string string string string string string string string bool

text \<open>The request module and the remote directory behind it are outside this file.
  They are a parameter \<open>src\<close>: the records answered to the latest call, given every call
  made so far.\<close>

type_synonym source = "call list \<Rightarrow> event list"

record 'd map_display =
  results :: int
  currIndex :: int
  activePoints :: "'d point list"
  overlays :: "'d graphic list list"
  viewpoints :: "'d point list"
  requests :: "call list"

text \<open>\<open>overlays\<close> is \<open>m_mapView->graphicsOverlays()\<close>; \<open>viewpoints\<close> lists the centres
  handed to \<open>setViewpointAnimated\<close>, oldest first; \<open>requests\<close> lists the calls of
  \<open>get_events\<close>, oldest first.\<close>

subsection \<open>Helpers of the run-time library\<close>

definition get_events :: "source \<Rightarrow> call \<Rightarrow> 'd map_display \<Rightarrow> event list \<times> 'd map_display" where
  "get_events src c st = (let cs = requests st @ [c] in (src cs, st\<lparr>requests := cs\<rparr>))"

text \<open>\<open>v[i]\<close> on a \<open>std::vector\<close> with an \<open>int\<close> index.\<close>

definition subscript :: "'a list \<Rightarrow> int \<Rightarrow> error + 'a" where
  "subscript v i = (if 0 \<le> i \<and> i < int (length v) then Inr (v ! nat i) else Inl vector_out_of_bounds)"

text \<open>\<open>std::to_string(int)\<close>.\<close>

fun nat_digits :: "nat \<Rightarrow> string" where
  "nat_digits n =
     (if n < 10 then [''0123456789'' ! n]
      else nat_digits (n div 10) @ [''0123456789'' ! (n mod 10)])"

declare nat_digits.simps [simp del]

definition to_string :: "int \<Rightarrow> string" where
  "to_string i = (if i < 0 then CHR ''-'' # nat_digits (nat (- i)) else nat_digits (nat i))"

text \<open>\<open>points[key] += 1\<close> on the ordered map, kept as the list of its entries in
  ascending key order: a new key enters with the count 1 at its place.\<close>

fun increment :: "'k::linorder \<Rightarrow> ('k \<times> int) list \<Rightarrow> ('k \<times> int) list" where
  "increment k [] = [(k, 1)]"
| "increment k ((k', n) # m) =
     (if k < k' then (k, 1) # (k', n) # m
      else if k = k' then (k', n + 1) # m
      else (k', n) # increment k m)"

subsection \<open>transition\_coords\<close>

definition transition_coords :: "'d point \<Rightarrow> 'd map_display \<Rightarrow> 'd map_display" where
  "transition_coords center st = st\<lparr>viewpoints := viewpoints st @ [center]\<rparr>"

subsection \<open>createGraphics\<close>

text \<open>The first loop: count the occurrences of every coordinate pair.\<close>

definition count_points :: "event list \<Rightarrow> (coords \<times> int) list" where
  "count_points eventarr = fold (\<lambda>e. increment (coords_of e)) eventarr []"

text \<open>The second loop, over the entries in key order. \<open>std::stod\<close> is the parameter
  \<open>stod\<close>; an exception it throws ends the loop and leaves the function.\<close>

fun place_markers ::
  "(string \<Rightarrow> error + 'd) \<Rightarrow> int \<Rightarrow> (coords \<times> int) list \<Rightarrow> error + ('d graphic list \<times> 'd point list)"
where
  "place_markers stod index [] = Inr ([], [])"
| "place_markers stod index (((la, lo), occurrences) # rest) =
     (case stod la of
        Inl e \<Rightarrow> Inl e
      | Inr lat \<Rightarrow>
         (case stod lo of
            Inl e \<Rightarrow> Inl e
          | Inr lng \<Rightarrow>
             (let pt = Point lng lat;
                  gs = Marker pt index #
                       (if occurrences > 1 then [Circle pt, Label pt occurrences] else [])
              in (case place_markers stod (index + 1) rest of
                    Inl e \<Rightarrow> Inl e
                  | Inr (gs', ps) \<Rightarrow> Inr (gs @ gs', pt # ps)))))"

definition createGraphics ::
  "(string \<Rightarrow> error + 'd) \<Rightarrow> source \<Rightarrow> 'd graphic list \<Rightarrow> 'd map_display
     \<Rightarrow> error + ('d graphic list \<times> 'd map_display)"
where
  "createGraphics stod src overlay st =
     (let (eventarr, st1) = get_events src NoArgs st;
          st2 = st1\<lparr>results := results st1 + int (length eventarr)\<rparr>;
          points = count_points eventarr
      in if points = [] then Inr (overlay, st2)
         else (case place_markers stod 0 points of
                 Inl e \<Rightarrow> Inl e
               | Inr (gs, ps) \<Rightarrow> Inr (overlay @ gs, st2\<lparr>activePoints := ps\<rparr>)))"

subsection \<open>searchHandler\<close>

definition searchHandler ::
  "(string \<Rightarrow> error + 'd) \<Rightarrow> source \<Rightarrow> string \<Rightarrow> int \<Rightarrow> 'd map_display \<Rightarrow> error + 'd map_display"
where
  "searchHandler stod src text page st =
     (let offset = page * 20;
          st1 = (if page > 0 then st\<lparr>results := 0\<rparr> else st);
          (eventarr, st2) =
             get_events src (Args text [] [] [] [] [] ''20'' (to_string offset) False) st1;
          st3 = st2\<lparr>overlays := []\<rparr>
      in (case createGraphics stod src [] st3 of
            Inl e \<Rightarrow> Inl e
          | Inr (overlay, st4) \<Rightarrow>
             (let st5 = st4\<lparr>overlays := overlays st4 @ [overlay]\<rparr>
              in (case subscript (activePoints st5) 0 of
                    Inl e \<Rightarrow> Inl e
                  | Inr center \<Rightarrow> Inr (transition_coords center st5)))))"

subsection \<open>switchViews\<close>

definition switchViews :: "bool \<Rightarrow> 'd map_display \<Rightarrow> error + 'd map_display" where
  "switchViews next st =
     (let index = currIndex st + (if next then 1 else - 1);
          len = int (length (activePoints st)) - 1;
          index = (if index > len then 0 else if index < 0 then len else index)
      in (case subscript (activePoints st) index of
            Inl e \<Rightarrow> Inl e
          | Inr center \<Rightarrow> Inr ((transition_coords center st)\<lparr>currIndex := index\<rparr>)))"

text \<open>Pressing the same button \<open>n\<close> times.\<close>

fun press :: "nat \<Rightarrow> bool \<Rightarrow> 'd map_display \<Rightarrow> error + 'd map_display" where
  "press 0 next st = Inr st"
| "press (Suc n) next st =
     (case switchViews next st of Inl e \<Rightarrow> Inl e | Inr st' \<Rightarrow> press n next st')"

subsection \<open>The handler of identifyGraphicsOverlayCompleted\<close>

text \<open>\<open>property("id").toInt()\<close>: a graphic without the property gives an invalid
  \<open>QVariant\<close>, whose \<open>toInt()\<close> is 0.\<close>

fun property_id :: "'d graphic \<Rightarrow> int" where
  "property_id (Marker pt i) = i"
| "property_id (Circle pt) = 0"
| "property_id (Label pt n) = 0"

text \<open>The argument is the identify result: \<open>None\<close> for a null pointer, otherwise its
  list of graphics.\<close>

definition identifyCompleted ::
  "'d graphic list option \<Rightarrow> 'd map_display \<Rightarrow> error + 'd map_display"
where
  "identifyCompleted identifyResult st =
     (case identifyResult of
        None \<Rightarrow> Inr st
      | Some [] \<Rightarrow> Inr st
      | Some (clickedGraphic # _) \<Rightarrow>
         (case subscript (activePoints st) (property_id clickedGraphic) of
            Inl e \<Rightarrow> Inl e
          | Inr center \<Rightarrow> Inr (transition_coords center st)))"

subsection \<open>checkPage\<close>

definition checkPage :: "source \<Rightarrow> bool \<Rightarrow> 'd map_display \<Rightarrow> int \<times> 'd map_display" where
  "checkPage src next st =
     (let page = (results st sdiv 20) - 1
      in if next then
           (if results st smod 20 = 0 then
              (let (probe, st1) =
                     get_events src (Args [] ''|'' [] [] [] [] ''1'' (to_string (page + 1)) False) st;
                   (eventarr, st2) = get_events src NoArgs st1
               in if length eventarr \<ge> 1 then (page + 1, st2) else (- 1, st2))
            else (- 1, st))
         else (if page > 0 then (page - 1, st) else (- 1, st)))"

subsection \<open>Reading one entry of the map\<close>

text \<open>The head of the second loop's body, lines 89 to 96: latitude first, then
  longitude, then the point. It names the point an entry stands for.\<close>

definition read_point :: "(string \<Rightarrow> error + 'd) \<Rightarrow> coords \<Rightarrow> error + 'd point" where
  "read_point stod k =
     (case stod (fst k) of
        Inl e \<Rightarrow> Inl e
      | Inr lat \<Rightarrow> (case stod (snd k) of Inl e \<Rightarrow> Inl e | Inr lng \<Rightarrow> Inr (Point lng lat)))"

text \<open>A record has parsable coordinates when \<open>std::stod\<close> accepts both strings.\<close>

definition parsable :: "(string \<Rightarrow> error + 'd) \<Rightarrow> event \<Rightarrow> bool" where
  "parsable stod e = (case read_point stod (coords_of e) of Inl err \<Rightarrow> False | Inr pt \<Rightarrow> True)"

subsection \<open>A decimal reader for the evaluations\<close>

text \<open>The theorems below hold for every \<open>stod\<close>. Where a concrete run is evaluated, the
  strings are plain decimal numerals or no numerals at all, and \<open>stod_decimal\<close> reads
  them as \<open>std::stod\<close> does: leading white space, an optional sign, digits with an
  optional fraction; \<open>std::invalid_argument\<close> when no digit can be read. The value is kept
  exact. Exponents, hexadecimal forms, \<open>inf\<close> and \<open>nan\<close>, and \<open>std::out_of_range\<close> are
  outside this reader.\<close>

definition isspace :: "char \<Rightarrow> bool" where
  "isspace c = (c = CHR '' '' \<or> (9 :: nat) \<le> of_char c \<and> of_char c \<le> (13 :: nat))"

definition isdigit :: "char \<Rightarrow> bool" where
  "isdigit c = (CHR ''0'' \<le> c \<and> c \<le> CHR ''9'')"

definition decimal_value :: "string \<Rightarrow> nat" where
  "decimal_value ds = foldl (\<lambda>a c. 10 * a + (of_char c - 48)) 0 ds"

definition stod_decimal :: "string \<Rightarrow> error + rat" where
  "stod_decimal s =
     (let t = dropWhile isspace s;
          neg = (t \<noteq> [] \<and> hd t = CHR ''-'');
          u = (if t \<noteq> [] \<and> (hd t = CHR ''-'' \<or> hd t = CHR ''+'') then tl t else t);
          ip = takeWhile isdigit u;
          v = dropWhile isdigit u;
          fp = (if v \<noteq> [] \<and> hd v = CHR ''.'' then takeWhile isdigit (tl v) else [])
      in if ip = [] \<and> fp = [] then Inl invalid_argument
         else Inr ((if neg then - 1 else 1) *
                   (of_nat (decimal_value (ip @ fp)) / of_nat (10 ^ length fp))))"

subsection \<open>Sample sessions\<close>

text \<open>A record with the two coordinate fields, and a request module that answers every
  call with the same records.\<close>

definition ev :: "string \<Rightarrow> string \<Rightarrow> event" where
  "ev la lo = [''lat'' \<mapsto> la, ''lng'' \<mapsto> lo]"

definition serving :: "event list \<Rightarrow> source" where
  "serving evs cs = evs"

text \<open>Three records at two places, in two orders of arrival.\<close>

definition scenario :: "event list" where
  "scenario = [ev ''10.0'' ''20.0'', ev ''10.0'' ''20.0'', ev ''30.0'' ''40.0'']"

definition scenario_shuffled :: "event list" where
  "scenario_shuffled = [ev ''30.0'' ''40.0'', ev ''10.0'' ''20.0'', ev ''10.0'' ''20.0'']"

text \<open>A record without coordinate fields followed by a well-formed one, and a
  well-formed list with one unreadable latitude in the middle.\<close>

definition with_missing :: "event list" where
  "with_missing = [[''name'' \<mapsto> ''Concert''], ev ''10.0'' ''20.0'']"


text \<open>A controller that has not loaded anything yet. The header with the member
  initialisers is not among the sources; both counters are taken to start at 0. No
  theorem below depends on these two values.\<close>

definition fresh :: "rat map_display" where
  "fresh = \<lparr>results = 0, currIndex = 0, activePoints = [], overlays = [], viewpoints = [],
      requests = []\<rparr>"

text \<open>A request module whose answer changes after the first search: the first two calls
  get \<open>a\<close>, every later call gets \<open>b\<close>.\<close>

definition first_then :: "event list \<Rightarrow> event list \<Rightarrow> source" where
  "first_then a b cs = (if length cs \<le> 2 then a else b)"

text \<open>The controller after the search for jazz, answered with \<open>scenario\<close>, and after the
  following search for rock, answered with one record.\<close>

definition after_first_search :: "rat map_display" where
  "after_first_search =
     \<lparr>results = 3, currIndex = 0,
      activePoints = [Point 20 10, Point 40 30],
      overlays = [[Marker (Point 20 10) 0, Circle (Point 20 10), Label (Point 20 10) 2,
                   Marker (Point 40 30) 1]],
      viewpoints = [Point 20 10],
      requests = [Args ''jazz'' [] [] [] [] [] ''20'' ''0'' False, NoArgs]\<rparr>"

definition after_second_search :: "rat map_display" where
  "after_second_search =
     \<lparr>results = 4, currIndex = 0,
      activePoints = [Point 60 50],
      overlays = [[Marker (Point 60 50) 0]],
      viewpoints = [Point 20 10, Point 60 50],
      requests = [Args ''jazz'' [] [] [] [] [] ''20'' ''0'' False, NoArgs,
                  Args ''rock'' [] [] [] [] [] ''20'' ''0'' False, NoArgs]\<rparr>"

text \<open>A controller whose running count says that one full page has been seen.\<close>

definition one_full_page :: "rat map_display" where
  "one_full_page =
     \<lparr>results = 20, currIndex = 0, activePoints = [Point 20 10], overlays = [[Marker (Point 20 10) 0]],
      viewpoints = [Point 20 10], requests = []\<rparr>"

text \<open>A session showing three markers, the last one in focus.\<close>

definition three_points :: "rat map_display" where
  "three_points = \<lparr>results = 3, currIndex = 2,
      activePoints = [Point 1 1, Point 2 2, Point 3 3], overlays = [], viewpoints = [], requests = []\<rparr>"

section \<open>Properties\<close>

subsection \<open>The map of occurrences\<close>

lemma keys_increment: "fst ` set (increment k m) = insert k (fst ` set m)"
proof (induction m)
  case Nil
  then show ?case by simp
next
  case (Cons a m)
  obtain k' n where a: "a = (k', n)" by (cases a)
  show ?case using Cons.IH by (simp add: a insert_commute)
qed

lemma sorted_increment:
  "sorted_wrt (<) (map fst m) \<Longrightarrow> sorted_wrt (<) (map fst (increment k m))"
proof (induction m)
  case Nil
  then show ?case by simp
next
  case (Cons a m)
  obtain k' n where a: "a = (k', n)" by (cases a)
  have tl: "sorted_wrt (<) (map fst m)" and hd: "\<forall>x \<in> fst ` set m. k' < x"
    using Cons.prems a by auto
  show ?case
  proof (cases "k < k'")
    case True
    then show ?thesis using Cons.prems a by auto
  next
    case False
    show ?thesis
    proof (cases "k = k'")
      case True
      then show ?thesis using Cons.prems a by auto
    next
      case neq: False
      with False have "k' < k" by simp
      then have "\<forall>x \<in> fst ` set (increment k m). k' < x"
        using hd by (simp add: keys_increment)
      then show ?thesis using False neq a Cons.IH [OF tl] by auto
    qed
  qed
qed

lemma map_of_increment:
  "sorted_wrt (<) (map fst m) \<Longrightarrow>
   map_of (increment k m) = (map_of m)(k \<mapsto> (case map_of m k of None \<Rightarrow> 1 | Some n \<Rightarrow> n + 1))"
proof (induction m)
  case Nil
  then show ?case by simp
next
  case (Cons a m)
  obtain k' n where a: "a = (k', n)" by (cases a)
  have tl: "sorted_wrt (<) (map fst m)" and hd: "\<forall>x \<in> fst ` set m. k' < x"
    using Cons.prems a by auto
  show ?case
  proof (cases "k < k'")
    case True
    then have "k \<notin> fst ` set m" using hd by auto
    then have "map_of m k = None" by (simp add: map_of_eq_None_iff)
    then show ?thesis using True a by auto
  next
    case False
    show ?thesis
    proof (cases "k = k'")
      case True
      then show ?thesis using a by auto
    next
      case neq: False
      then show ?thesis using False a Cons.IH [OF tl] by (auto simp: fun_upd_twist)
    qed
  qed
qed

lemma sum_increment: "sum_list (map snd (increment k m)) = sum_list (map snd m) + 1"
  by (induction m) auto

lemma sorted_fold_increment:
  "sorted_wrt (<) (map fst acc) \<Longrightarrow> sorted_wrt (<) (map fst (fold (\<lambda>e. increment (f e)) evs acc))"
  by (induction evs arbitrary: acc) (simp_all add: sorted_increment)

lemma keys_fold_increment:
  "fst ` set (fold (\<lambda>e. increment (f e)) evs acc) = fst ` set acc \<union> f ` set evs"
  by (induction evs arbitrary: acc) (auto simp: keys_increment)

lemma sum_fold_increment:
  "sum_list (map snd (fold (\<lambda>e. increment (f e)) evs acc)) = sum_list (map snd acc) + int (length evs)"
  by (induction evs arbitrary: acc) (simp_all add: sum_increment)

lemma map_of_fold_increment:
  "sorted_wrt (<) (map fst acc) \<Longrightarrow>
   map_of (fold (\<lambda>e. increment (f e)) evs acc) k =
     (if k \<in> f ` set evs
      then Some ((case map_of acc k of None \<Rightarrow> 0 | Some n \<Rightarrow> n) + int (length (filter (\<lambda>e. f e = k) evs)))
      else map_of acc k)"
proof (induction evs arbitrary: acc)
  case Nil
  then show ?case by simp
next
  case (Cons e evs)
  have s: "sorted_wrt (<) (map fst (increment (f e) acc))"
    using Cons.prems by (rule sorted_increment)
  show ?case
    using Cons.IH [OF s] Cons.prems
    by (auto simp: map_of_increment filter_empty_conv image_iff split: option.splits)
qed

lemma sorted_count_points: "sorted_wrt (<) (map fst (count_points evs))"
  by (simp add: count_points_def sorted_fold_increment)

lemma distinct_count_points: "distinct (map fst (count_points evs))"
  using sorted_count_points strict_sorted_iff by blast

lemma map_of_count_points:
  "map_of (count_points evs) k =
     (if k \<in> coords_of ` set evs
      then Some (int (length (filter (\<lambda>e. coords_of e = k) evs))) else None)"
  by (simp add: count_points_def map_of_fold_increment)

lemma count_points_entry:
  "(k, n) \<in> set (count_points evs) \<longleftrightarrow>
     k \<in> coords_of ` set evs \<and> n = int (length (filter (\<lambda>e. coords_of e = k) evs))"
proof -
  have "(k, n) \<in> set (count_points evs) \<longleftrightarrow> map_of (count_points evs) k = Some n"
    using distinct_count_points by (metis map_of_SomeD map_of_is_SomeI)
  then show ?thesis by (auto simp: map_of_count_points)
qed

lemma count_points_permute:
  assumes "mset evs' = mset evs"
  shows "count_points evs' = count_points evs"
proof -
  have s: "set evs' = set evs" using assms by (rule mset_eq_setD)
  have c: "length (filter P evs') = length (filter P evs)" for P
    using assms by (metis mset_filter size_mset)
  have "set (count_points evs') = set (count_points evs)"
    by (auto simp: count_points_entry s c)
  moreover have "sorted_wrt (<) (count_points evs)" for evs
  proof -
    have "sorted_wrt (\<lambda>a b. fst a < fst b) (count_points evs)"
      using sorted_count_points [of evs] by (simp add: sorted_wrt_map)
    then show ?thesis
      by (rule sorted_wrt_mono_rel [rotated]) (auto simp: less_prod_def)
  qed
  ultimately show ?thesis by (metis strict_sorted_equal)
qed

subsection \<open>The markers of a pass\<close>

lemma place_markers_Cons:
  "place_markers stod i ((k, n) # rest) =
     (case read_point stod k of
        Inl e \<Rightarrow> Inl e
      | Inr pt \<Rightarrow>
         (case place_markers stod (i + 1) rest of
            Inl e \<Rightarrow> Inl e
          | Inr (gs', ps) \<Rightarrow>
              Inr ((Marker pt i # (if n > 1 then [Circle pt, Label pt n] else [])) @ gs', pt # ps)))"
  by (cases k) (simp add: read_point_def Let_def split: sum.splits)

lemma place_markers_points:
  "place_markers stod i m = Inr (gs, ps) \<Longrightarrow> map (read_point stod \<circ> fst) m = map Inr ps"
proof (induction m arbitrary: i gs ps)
  case Nil
  then show ?case by simp
next
  case (Cons a m)
  obtain k n where a: "a = (k, n)" by (cases a)
  from Cons.prems obtain pt gs' ps' where
    r: "read_point stod k = Inr pt" and
    t: "place_markers stod (i + 1) m = Inr (gs', ps')" and
    p: "ps = pt # ps'"
    by (auto simp: a place_markers_Cons split: sum.splits)
  show ?case using Cons.IH [OF t] r p by (simp add: a)
qed

lemma place_markers_success:
  "(\<forall>k \<in> fst ` set m. \<exists>pt. read_point stod k = Inr pt) \<Longrightarrow> \<exists>gs ps. place_markers stod i m = Inr (gs, ps)"
proof (induction m arbitrary: i)
  case Nil
  then show ?case by simp
next
  case (Cons a m)
  obtain k n where a: "a = (k, n)" by (cases a)
  from Cons.prems obtain pt where r: "read_point stod k = Inr pt" by (auto simp: a)
  from Cons.prems have "\<forall>k \<in> fst ` set m. \<exists>pt. read_point stod k = Inr pt" by simp
  from Cons.IH [OF this, of "i + 1"] obtain gs ps where "place_markers stod (i + 1) m = Inr (gs, ps)"
    by blast
  then show ?case using r by (simp add: a place_markers_Cons)
qed


lemma place_markers_ids:
  "place_markers stod i m = Inr (gs, ps) \<Longrightarrow>
   Marker p j \<in> set gs \<longleftrightarrow> i \<le> j \<and> j < i + int (length ps) \<and> ps ! nat (j - i) = p"
proof (induction m arbitrary: i gs ps)
  case Nil
  then show ?case by auto
next
  case (Cons a m)
  obtain k n where a: "a = (k, n)" by (cases a)
  from Cons.prems obtain pt gs' ps' where
    r: "read_point stod k = Inr pt" and
    t: "place_markers stod (i + 1) m = Inr (gs', ps')" and
    p: "ps = pt # ps'" and
    g: "gs = (Marker pt i # (if n > 1 then [Circle pt, Label pt n] else [])) @ gs'"
    by (auto simp: a place_markers_Cons split: sum.splits)
  have ih: "Marker p j \<in> set gs' \<longleftrightarrow> i + 1 \<le> j \<and> j < i + 1 + int (length ps') \<and> ps' ! nat (j - (i + 1)) = p"
    by (rule Cons.IH [OF t])
  show ?case
  proof (cases "j = i")
    case True
    then show ?thesis using ih p g by auto
  next
    case False
    have "i + 1 \<le> j \<Longrightarrow> nat (j - i) = Suc (nat (j - (i + 1)))" by simp
    then show ?thesis using False ih p g by auto
  qed
qed

lemma place_markers_labels:
  "place_markers stod i m = Inr (gs, ps) \<Longrightarrow> Label p n \<in> set gs \<Longrightarrow>
   \<exists>k. (k, n) \<in> set m \<and> read_point stod k = Inr p \<and> 1 < n"
proof (induction m arbitrary: i gs ps)
  case Nil
  then show ?case by auto
next
  case (Cons a m)
  obtain k c where a: "a = (k, c)" by (cases a)
  from Cons.prems(1) obtain pt gs' ps' where
    r: "read_point stod k = Inr pt" and
    t: "place_markers stod (i + 1) m = Inr (gs', ps')" and
    g: "gs = (Marker pt i # (if c > 1 then [Circle pt, Label pt c] else [])) @ gs'"
    by (auto simp: a place_markers_Cons split: sum.splits)
  from Cons.prems(2) g consider "p = pt \<and> n = c \<and> 1 < c" | "Label p n \<in> set gs'"
    by (auto split: if_splits)
  then show ?case
  proof cases
    case 1
    then have "(k, n) \<in> set (a # m) \<and> read_point stod k = Inr p \<and> 1 < n"
      using r a by simp
    then show ?thesis by blast
  next
    case 2
    from Cons.IH [OF t 2] show ?thesis by (auto simp: a)
  qed
qed

lemma parsable_iff: "parsable stod e \<longleftrightarrow> (\<exists>pt. read_point stod (coords_of e) = Inr pt)"
  by (simp add: parsable_def split: sum.splits)

lemma keys_count_points: "fst ` set (count_points evs) = coords_of ` set evs"
  by (simp add: count_points_def keys_fold_increment)

lemma count_points_Nil: "count_points evs = [] \<longleftrightarrow> evs = []"
proof
  assume "count_points evs = []"
  then have "coords_of ` set evs = {}" using keys_count_points [of evs] by simp
  then show "evs = []" by simp
next
  assume "evs = []"
  then show "count_points evs = []" by (simp add: count_points_def)
qed

lemma place_markers_all_parsable:
  assumes "\<forall>e \<in> set evs. parsable stod e"
  shows "\<exists>gs ps. place_markers stod i (count_points evs) = Inr (gs, ps)"
proof (rule place_markers_success)
  show "\<forall>k \<in> fst ` set (count_points evs). \<exists>pt. read_point stod k = Inr pt"
    using assms by (auto simp: keys_count_points parsable_iff)
qed

lemma createGraphics_eq:
  "createGraphics stod src overlay st =
     (if src (requests st @ [NoArgs]) = []
      then Inr (overlay, st\<lparr>requests := requests st @ [NoArgs]\<rparr>)
      else (case place_markers stod 0 (count_points (src (requests st @ [NoArgs]))) of
              Inl e \<Rightarrow> Inl e
            | Inr (gs, ps) \<Rightarrow>
                Inr (overlay @ gs,
                     st\<lparr>requests := requests st @ [NoArgs],
                        results := results st + int (length (src (requests st @ [NoArgs]))),
                        activePoints := ps\<rparr>)))"
  by (simp add: createGraphics_def get_events_def Let_def count_points_Nil split: sum.splits)

subsection \<open>The handlers in closed form\<close>

lemma place_markers_length:
  "place_markers stod i m = Inr (gs, ps) \<Longrightarrow> length ps = length m"
  using place_markers_points [of stod i m gs ps] by (metis length_map)

lemma searchHandler_eq:
  "searchHandler stod src text page st =
     (let cs = requests st @ [Args text [] [] [] [] [] ''20'' (to_string (page * 20)) False, NoArgs];
          base = (if page > 0 then 0 else results st)
      in if src cs = []
         then (case activePoints st of
                 [] \<Rightarrow> Inl vector_out_of_bounds
               | center # _ \<Rightarrow>
                   Inr (st\<lparr>results := base, overlays := [[]],
                           viewpoints := viewpoints st @ [center], requests := cs\<rparr>))
         else (case place_markers stod 0 (count_points (src cs)) of
                 Inl e \<Rightarrow> Inl e
               | Inr (gs, ps) \<Rightarrow>
                   Inr (st\<lparr>results := base + int (length (src cs)), activePoints := ps,
                           overlays := [gs], viewpoints := viewpoints st @ [ps ! 0],
                           requests := cs\<rparr>)))"
proof (cases "src (requests st @ [Args text [] [] [] [] [] ''20'' (to_string (page * 20)) False, NoArgs]) = []")
  case True
  then show ?thesis
    by (cases "activePoints st")
       (simp_all add: searchHandler_def createGraphics_eq get_events_def Let_def subscript_def
          transition_coords_def)
next
  case False
  show ?thesis
  proof (cases "place_markers stod 0 (count_points (src (requests st @ [Args text [] [] [] [] [] ''20'' (to_string (page * 20)) False, NoArgs])))")
    case (Inl e)
    then show ?thesis using False
      by (simp add: searchHandler_def createGraphics_eq get_events_def Let_def)
  next
    case (Inr r)
    obtain gs ps where r: "r = (gs, ps)" by (cases r)
    have "length ps = length (count_points (src (requests st @ [Args text [] [] [] [] [] ''20'' (to_string (page * 20)) False, NoArgs])))"
      using Inr r by (simp add: place_markers_length)
    then have "ps \<noteq> []" using False by (auto simp: count_points_Nil)
    then show ?thesis using False Inr r
      by (simp add: searchHandler_def createGraphics_eq get_events_def Let_def subscript_def
          transition_coords_def)
  qed
qed

lemma checkPage_next_eq:
  "checkPage src True st =
     (let page = (results st sdiv 20) - 1
      in if results st smod 20 = 0
         then (let cs = requests st @ [Args [] ''|'' [] [] [] [] ''1'' (to_string (page + 1)) False, NoArgs]
               in (if src cs \<noteq> [] then page + 1 else - 1, st\<lparr>requests := cs\<rparr>))
         else (- 1, st))"
  by (cases "src (requests st @ [Args [] ''|'' [] [] [] [] ''1'' (to_string (results st sdiv 20 - 1 + 1)) False, NoArgs])")
     (simp_all add: checkPage_def get_events_def Let_def)

subsection \<open>Aggregation\<close>

text \<open>The definitions unfolded when a concrete run is evaluated.\<close>

lemmas eval_defs = ev_def coords_of_def field_def count_points_def read_point_def parsable_def
  stod_decimal_def isspace_def isdigit_def decimal_value_def Let_def serving_def fresh_def
  createGraphics_def get_events_def

text \<open>
  Claim C1, as the code has it. For every list of records the map \<open>points\<close> groups them by
  the exact pair of lat string and lng string: its keys are distinct, an entry (k, n) is
  in the map exactly when k is the pair of some record and n is the number of records
  with that pair, and the counts sum to the number of all records. When \<open>std::stod\<close>
  accepts the coordinates of every record, that sum is the number of records with parsable
  coordinates, the pass emits one point per entry, in the order of the entries, and every
  label on the overlay shows the count of the entry whose point it is attached to.
\<close>

theorem count_points_occurrences:
  "distinct (map fst (count_points evs))
   \<and> (\<forall>k n. (k, n) \<in> set (count_points evs) \<longleftrightarrow>
         k \<in> coords_of ` set evs \<and> n = int (length (filter (\<lambda>e. coords_of e = k) evs)))
   \<and> sum_list (map snd (count_points evs)) = int (length evs)
   \<and> ((\<forall>e \<in> set evs. parsable stod e) \<longrightarrow>
         sum_list (map snd (count_points evs)) = int (length (filter (parsable stod) evs))
         \<and> (\<exists>gs ps. place_markers stod 0 (count_points evs) = Inr (gs, ps)
               \<and> map (read_point stod \<circ> fst) (count_points evs) = map Inr ps
               \<and> (\<forall>p n. Label p n \<in> set gs \<longrightarrow>
                     (\<exists>k. (k, n) \<in> set (count_points evs) \<and> read_point stod k = Inr p))))"
proof (intro conjI allI impI)
  show "distinct (map fst (count_points evs))" by (rule distinct_count_points)
next
  fix k n
  show "(k, n) \<in> set (count_points evs) \<longleftrightarrow>
         k \<in> coords_of ` set evs \<and> n = int (length (filter (\<lambda>e. coords_of e = k) evs))"
    by (rule count_points_entry)
next
  show "sum_list (map snd (count_points evs)) = int (length evs)"
    by (simp add: count_points_def sum_fold_increment)
next
  assume all: "\<forall>e \<in> set evs. parsable stod e"
  then have "filter (parsable stod) evs = evs" by simp
  then show "sum_list (map snd (count_points evs)) = int (length (filter (parsable stod) evs))"
    by (simp add: count_points_def sum_fold_increment)
next
  assume all: "\<forall>e \<in> set evs. parsable stod e"
  from place_markers_all_parsable [OF all, of 0] obtain gs ps where
    r: "place_markers stod 0 (count_points evs) = Inr (gs, ps)" by blast
  have "map (read_point stod \<circ> fst) (count_points evs) = map Inr ps"
    using r by (rule place_markers_points)
  moreover have "\<forall>p n. Label p n \<in> set gs \<longrightarrow>
                     (\<exists>k. (k, n) \<in> set (count_points evs) \<and> read_point stod k = Inr p)"
    using place_markers_labels [OF r] by blast
  ultimately show "\<exists>gs ps. place_markers stod 0 (count_points evs) = Inr (gs, ps)
               \<and> map (read_point stod \<circ> fst) (count_points evs) = map Inr ps
               \<and> (\<forall>p n. Label p n \<in> set gs \<longrightarrow>
                     (\<exists>k. (k, n) \<in> set (count_points evs) \<and> read_point stod k = Inr p))"
    using r by blast
qed

theorem count_points_occurrences_witness:
  "list_all (parsable stod_decimal) scenario
   \<and> ((''10.0'', ''20.0''), 2) \<in> set (count_points scenario)
   \<and> sum_list (map snd (count_points scenario)) = int (length (filter (parsable stod_decimal) scenario))
   \<and> (\<exists>gs ps. place_markers stod_decimal 0 (count_points scenario) = Inr (gs, ps))"
proof -
  have h: "\<forall>e \<in> set scenario. parsable stod_decimal e"
    by (simp add: scenario_def eval_defs)
  have l: "list_all (parsable stod_decimal) scenario"
    using h by (simp add: list_all_iff)
  have e: "((''10.0'', ''20.0''), 2) \<in> set (count_points scenario)"
    by (simp add: scenario_def eval_defs)
  show ?thesis
    using count_points_occurrences [of scenario stod_decimal] h l e by blast
qed

text \<open>
  A record without coordinate fields followed by a well-formed one: the map counts both,
  one of them is parsable, and the pass ends with the exception of \<open>std::stod\<close>.
\<close>

theorem occurrences_sum_counterexample:
  "sum_list (map snd (count_points with_missing)) = 2
   \<and> length (filter (parsable stod_decimal) with_missing) = 1
   \<and> createGraphics stod_decimal (serving with_missing) [] fresh = Inl invalid_argument"
  by (simp add: with_missing_def eval_defs)

text \<open>
  Claim C2. The pass does not depend on the order in which the records arrive: two
  answers of the request module that are permutations of each other give the same map, the
  same graphics with the same ids and the same controller state. The entries are in
  strictly ascending order of the pair (lat string, lng string), compared
  lexicographically, and the emitted points follow the entries in that order.
\<close>

theorem aggregation_order_independent:
  assumes "mset (src' (requests st @ [NoArgs])) = mset (src (requests st @ [NoArgs]))"
  shows "count_points (src' (requests st @ [NoArgs])) = count_points (src (requests st @ [NoArgs]))
       \<and> createGraphics stod src' overlay st = createGraphics stod src overlay st
       \<and> sorted_wrt (<) (map fst (count_points (src (requests st @ [NoArgs]))))
       \<and> (\<forall>gs ps. place_markers stod 0 (count_points (src (requests st @ [NoArgs]))) = Inr (gs, ps) \<longrightarrow>
             map (read_point stod \<circ> fst) (count_points (src (requests st @ [NoArgs]))) = map Inr ps)"
proof (intro conjI allI impI)
  show c: "count_points (src' (requests st @ [NoArgs])) = count_points (src (requests st @ [NoArgs]))"
    using assms by (rule count_points_permute)
  have len: "length (src' (requests st @ [NoArgs])) = length (src (requests st @ [NoArgs]))"
    using assms by (rule mset_eq_length)
  then have emp: "(src' (requests st @ [NoArgs]) = []) = (src (requests st @ [NoArgs]) = [])"
    by (metis length_0_conv)
  show "createGraphics stod src' overlay st = createGraphics stod src overlay st"
    by (simp only: createGraphics_eq c len emp)
  show "sorted_wrt (<) (map fst (count_points (src (requests st @ [NoArgs]))))"
    by (rule sorted_count_points)
next
  fix gs ps
  assume "place_markers stod 0 (count_points (src (requests st @ [NoArgs]))) = Inr (gs, ps)"
  then show "map (read_point stod \<circ> fst) (count_points (src (requests st @ [NoArgs]))) = map Inr ps"
    by (rule place_markers_points)
qed

theorem aggregation_order_independent_witness:
  "mset (serving scenario_shuffled (requests fresh @ [NoArgs])) = mset (serving scenario (requests fresh @ [NoArgs]))
   \<and> createGraphics stod_decimal (serving scenario_shuffled) [] fresh
       = createGraphics stod_decimal (serving scenario) [] fresh
   \<and> createGraphics stod_decimal (serving scenario) [] fresh
       = Inr ([Marker (Point 20 10) 0, Circle (Point 20 10), Label (Point 20 10) 2, Marker (Point 40 30) 1],
              fresh\<lparr>results := 3, activePoints := [Point 20 10, Point 40 30], requests := [NoArgs]\<rparr>)"
proof -
  have h: "mset (serving scenario_shuffled (requests fresh @ [NoArgs]))
             = mset (serving scenario (requests fresh @ [NoArgs]))"
    by (simp add: serving_def scenario_def scenario_shuffled_def)
  have v: "createGraphics stod_decimal (serving scenario) [] fresh
       = Inr ([Marker (Point 20 10) 0, Circle (Point 20 10), Label (Point 20 10) 2, Marker (Point 40 30) 1],
              fresh\<lparr>results := 3, activePoints := [Point 20 10, Point 40 30], requests := [NoArgs]\<rparr>)"
    by (simp add: scenario_def eval_defs)
  show ?thesis
    using aggregation_order_independent
            [of "serving scenario_shuffled" fresh "serving scenario" stod_decimal "[]", OF h] h v
    by blast
qed




subsection \<open>Evaluated runs\<close>

lemma to_string_small: "to_string 0 = ''0''" "to_string 1 = ''1''" "to_string 20 = ''20''"
  by (simp_all add: to_string_def nat_digits.simps)

lemma scenario_size: "scenario \<noteq> []" "length scenario = 3"
  by (simp_all add: scenario_def)

lemma scenario_markers:
  "place_markers stod_decimal 0 (count_points scenario) =
     Inr ([Marker (Point 20 10) 0, Circle (Point 20 10), Label (Point 20 10) 2, Marker (Point 40 30) 1],
          [Point 20 10, Point 40 30])"
  by (simp add: scenario_def eval_defs)

lemma single_markers:
  "place_markers stod_decimal 0 (count_points [ev ''50.0'' ''60.0'']) =
     Inr ([Marker (Point 60 50) 0], [Point 60 50])"
  by (simp add: eval_defs)

lemmas run_defs = searchHandler_eq Let_def first_then_def serving_def to_string_small
  scenario_size scenario_markers single_markers

lemma first_search_run:
  "searchHandler stod_decimal (first_then scenario [ev ''50.0'' ''60.0'']) ''jazz'' 0 fresh
     = Inr after_first_search"
  by (simp add: fresh_def after_first_search_def run_defs)

lemma second_search_run:
  "searchHandler stod_decimal (first_then scenario [ev ''50.0'' ''60.0'']) ''rock'' 0 after_first_search
     = Inr after_second_search"
  by (simp add: after_first_search_def after_second_search_def run_defs)

subsection \<open>Paging\<close>

text \<open>
  Claim C3, evaluated on the code. A search that succeeds leaves the running count at the
  number of records of the answer, added to the old count when \<open>page = 0\<close> and to 0 when
  \<open>page > 0\<close>: the count is reset on the later pages and kept on page 0.
\<close>

theorem searchHandler_results:
  assumes "searchHandler stod src text page st = Inr st'"
  shows "results st' =
           (if page > 0 then 0 else results st)
           + int (length (src (requests st @
                 [Args text [] [] [] [] [] ''20'' (to_string (page * 20)) False, NoArgs])))"
  using assms
  by (auto simp: searchHandler_eq Let_def split: if_splits list.splits sum.splits)

theorem searchHandler_results_witness:
  "searchHandler stod_decimal (first_then scenario [ev ''50.0'' ''60.0'']) ''rock'' 0 after_first_search
     = Inr after_second_search
   \<and> results after_first_search = 3
   \<and> results after_second_search = 3 + 1
   \<and> (\<exists>st'. searchHandler stod_decimal (first_then scenario [ev ''50.0'' ''60.0'']) ''jazz'' 1
               after_first_search = Inr st'
             \<and> results st' = 0 + 1)"
proof -
  have "\<exists>st'. searchHandler stod_decimal (first_then scenario [ev ''50.0'' ''60.0'']) ''jazz'' 1
               after_first_search = Inr st'"
    by (simp add: after_first_search_def run_defs)
  then obtain st1 where run1:
    "searchHandler stod_decimal (first_then scenario [ev ''50.0'' ''60.0'']) ''jazz'' 1
       after_first_search = Inr st1" by blast
  have page1: "results st1 = 0 + 1"
    using searchHandler_results [OF run1] by (simp add: after_first_search_def first_then_def)
  have run: "searchHandler stod_decimal (first_then scenario [ev ''50.0'' ''60.0'']) ''rock'' 0
               after_first_search = Inr after_second_search"
    by (rule second_search_run)
  have "results after_first_search = 3" by (simp add: after_first_search_def)
  then show ?thesis
    using searchHandler_results [OF run] run run1 page1
    by (simp add: after_first_search_def first_then_def)
qed

text \<open>
  Claim C4, evaluated on the code. With a running count of 20 (page 0, full), \<open>checkPage\<close>
  asks for one row at the offset argument \<open>page + 1\<close>, the string 1, where the offset of
  the next page is \<open>(page + 1) * 20\<close>, the string 20; it then calls \<open>get_events\<close> once more
  without arguments and answers \<open>page + 1\<close> since that answer is not empty.
\<close>

theorem checkPage_probe_offset:
  "checkPage (serving scenario) True one_full_page =
     (1, one_full_page\<lparr>requests := [Args [] ''|'' [] [] [] [] ''1'' ''1'' False, NoArgs]\<rparr>)
   \<and> to_string ((0 + 1) * 20) = ''20''"
  by (simp add: checkPage_next_eq Let_def one_full_page_def serving_def scenario_size
        to_string_small signed_divide_int_def signed_modulo_int_def)

subsection \<open>Clicks on markers\<close>

text \<open>
  Claim C6, as the code has it. A click on a graphic whose id lies in [0, N) moves the
  focus to the point at that position of the current \<open>activePoints\<close> and changes nothing
  else; for every marker put on the overlay by the pass that produced \<open>activePoints\<close>,
  that point is the marker's own point. An identify result that is null or empty changes
  nothing. The id carries no mark of the pass that assigned it.
\<close>

theorem identifyCompleted_resolves:
  "(0 \<le> i \<and> i < int (length (activePoints st)) \<longrightarrow>
      identifyCompleted (Some (Marker p i # rest)) st
        = Inr (st\<lparr>viewpoints := viewpoints st @ [activePoints st ! nat i]\<rparr>))
   \<and> (place_markers stod 0 m = Inr (gs, activePoints st) \<and> Marker p i \<in> set gs \<longrightarrow>
        identifyCompleted (Some (Marker p i # rest)) st = Inr (st\<lparr>viewpoints := viewpoints st @ [p]\<rparr>))
   \<and> identifyCompleted (Some []) st = Inr st
   \<and> identifyCompleted None st = Inr st"
proof (intro conjI impI)
  assume "0 \<le> i \<and> i < int (length (activePoints st))"
  then show "identifyCompleted (Some (Marker p i # rest)) st
        = Inr (st\<lparr>viewpoints := viewpoints st @ [activePoints st ! nat i]\<rparr>)"
    by (simp add: identifyCompleted_def subscript_def transition_coords_def)
next
  assume a: "place_markers stod 0 m = Inr (gs, activePoints st) \<and> Marker p i \<in> set gs"
  then have "0 \<le> i \<and> i < int (length (activePoints st)) \<and> activePoints st ! nat i = p"
    using place_markers_ids [of stod 0 m gs "activePoints st" p i] by simp
  then show "identifyCompleted (Some (Marker p i # rest)) st = Inr (st\<lparr>viewpoints := viewpoints st @ [p]\<rparr>)"
    by (simp add: identifyCompleted_def subscript_def transition_coords_def)
next
  show "identifyCompleted (Some []) st = Inr st" by (simp add: identifyCompleted_def)
next
  show "identifyCompleted None st = Inr st" by (simp add: identifyCompleted_def)
qed

theorem identifyCompleted_resolves_witness:
  "0 \<le> (1::int) \<and> 1 < int (length (activePoints after_first_search))
   \<and> place_markers stod_decimal 0 (count_points scenario)
        = Inr (hd (overlays after_first_search), activePoints after_first_search)
   \<and> Marker (Point 40 30) 1 \<in> set (hd (overlays after_first_search))
   \<and> identifyCompleted (Some [Marker (Point 40 30) 1]) after_first_search
        = Inr (after_first_search\<lparr>viewpoints := [Point 20 10, Point 40 30]\<rparr>)"
proof -
  have a: "0 \<le> (1::int) \<and> 1 < int (length (activePoints after_first_search))"
    by (simp add: after_first_search_def)
  have b: "place_markers stod_decimal 0 (count_points scenario)
        = Inr (hd (overlays after_first_search), activePoints after_first_search)"
    by (simp add: after_first_search_def scenario_markers)
  have c: "Marker (Point 40 30) 1 \<in> set (hd (overlays after_first_search))"
    by (simp add: after_first_search_def)
  have d: "viewpoints after_first_search @ [Point 40 30] = [Point 20 10, Point 40 30]"
    by (simp add: after_first_search_def)
  show ?thesis
    using identifyCompleted_resolves
            [of 1 after_first_search "Point 40 30" "[]" stod_decimal "count_points scenario"
                "hd (overlays after_first_search)"] a b c d
    by (simp add: after_first_search_def)
qed

text \<open>
  A marker of the first search, clicked after the second search: id 1 is outside the new
  list, id 0 is answered with the new point 0 and moves the focus.
\<close>

theorem stale_marker_counterexample:
  "searchHandler stod_decimal (first_then scenario [ev ''50.0'' ''60.0'']) ''jazz'' 0 fresh
     = Inr after_first_search
   \<and> searchHandler stod_decimal (first_then scenario [ev ''50.0'' ''60.0'']) ''rock'' 0 after_first_search
     = Inr after_second_search
   \<and> Marker (Point 40 30) 1 \<in> set (hd (overlays after_first_search))
   \<and> Marker (Point 20 10) 0 \<in> set (hd (overlays after_first_search))
   \<and> identifyCompleted (Some [Marker (Point 40 30) 1]) after_second_search = Inl vector_out_of_bounds
   \<and> identifyCompleted (Some [Marker (Point 20 10) 0]) after_second_search
     = Inr (after_second_search\<lparr>viewpoints := [Point 20 10, Point 60 50, Point 60 50]\<rparr>)"
  by (simp add: first_search_run second_search_run)
     (simp add: after_first_search_def after_second_search_def identifyCompleted_def
        subscript_def transition_coords_def)

subsection \<open>The navigation cursor\<close>

lemma subscript_in_range: "0 \<le> i \<Longrightarrow> i < int (length v) \<Longrightarrow> subscript v i = Inr (v ! nat i)"
  by (simp add: subscript_def)

lemma switchViews_next_step:
  assumes "0 \<le> currIndex st" "currIndex st < int (length (activePoints st))"
  shows "switchViews True st =
           Inr ((transition_coords (activePoints st ! nat ((currIndex st + 1) mod int (length (activePoints st)))) st)
                  \<lparr>currIndex := (currIndex st + 1) mod int (length (activePoints st))\<rparr>)"
proof (cases "currIndex st + 1 = int (length (activePoints st))")
  case True
  moreover have "activePoints st \<noteq> []" using assms by auto
  ultimately show ?thesis using assms by (simp add: switchViews_def subscript_def Let_def)
next
  case False
  then have "currIndex st + 1 < int (length (activePoints st))" using assms by simp
  then show ?thesis using assms by (simp add: switchViews_def subscript_def Let_def)
qed

lemma switchViews_previous_step:
  assumes "0 \<le> currIndex st" "currIndex st < int (length (activePoints st))"
  shows "switchViews False st =
           Inr ((transition_coords (activePoints st ! nat ((currIndex st - 1) mod int (length (activePoints st)))) st)
                  \<lparr>currIndex := (currIndex st - 1) mod int (length (activePoints st))\<rparr>)"
proof (cases "currIndex st = 0")
  case True
  then have "(currIndex st - 1) mod int (length (activePoints st)) = int (length (activePoints st)) - 1"
    using assms by (simp add: zmod_minus1)
  then show ?thesis using True assms by (simp add: switchViews_def subscript_def Let_def)
next
  case False
  then show ?thesis using assms by (simp add: switchViews_def subscript_def Let_def)
qed

lemma press_next_index:
  assumes "0 \<le> currIndex st" "currIndex st < int (length (activePoints st))"
  shows "\<exists>st'. press n True st = Inr st' \<and> activePoints st' = activePoints st
            \<and> currIndex st' = (currIndex st + int n) mod int (length (activePoints st))"
  using assms
proof (induction n arbitrary: st)
  case 0
  then show ?case by simp
next
  case (Suc n)
  let ?N = "int (length (activePoints st))"
  let ?st1 = "(transition_coords (activePoints st ! nat ((currIndex st + 1) mod ?N)) st)
                  \<lparr>currIndex := (currIndex st + 1) mod ?N\<rparr>"
  have step: "switchViews True st = Inr ?st1"
    using Suc.prems by (rule switchViews_next_step)
  have pts: "activePoints ?st1 = activePoints st" by (simp add: transition_coords_def)
  have idx: "currIndex ?st1 = (currIndex st + 1) mod ?N" by simp
  have pos: "0 < ?N" using Suc.prems by linarith
  have r1: "0 \<le> currIndex ?st1" using pos idx by simp
  have r2: "currIndex ?st1 < int (length (activePoints ?st1))" using pos idx pts by simp
  from Suc.IH [OF r1 r2] obtain st' where
    h: "press n True ?st1 = Inr st'" "activePoints st' = activePoints ?st1"
       "currIndex st' = (currIndex ?st1 + int n) mod int (length (activePoints ?st1))"
    by blast
  have "currIndex st' = (currIndex st + int (Suc n)) mod ?N"
    using h(3) pts idx by (simp add: mod_simps algebra_simps)
  then show ?case using step h pts by simp
qed

text \<open>
  Claim C7. With N \<ge> 1 points and the current index in [0, N): next from N - 1 gives 0,
  previous from 0 gives N - 1, pressing next N times comes back to the index it started
  from, and next followed by previous gives the index back. Every step succeeds.
\<close>

theorem switchViews_cyclic:
  assumes "1 \<le> length (activePoints st)"
    and "0 \<le> currIndex st" and "currIndex st < int (length (activePoints st))"
  shows "(currIndex st = int (length (activePoints st)) - 1 \<longrightarrow>
            (\<exists>st'. switchViews True st = Inr st' \<and> currIndex st' = 0))
       \<and> (currIndex st = 0 \<longrightarrow>
            (\<exists>st'. switchViews False st = Inr st' \<and> currIndex st' = int (length (activePoints st)) - 1))
       \<and> (\<exists>st'. press (length (activePoints st)) True st = Inr st' \<and> currIndex st' = currIndex st)
       \<and> (\<exists>st' st''. switchViews True st = Inr st' \<and> switchViews False st' = Inr st''
             \<and> currIndex st'' = currIndex st)"
proof (intro conjI impI)
  let ?N = "int (length (activePoints st))"
  assume "currIndex st = ?N - 1"
  then show "\<exists>st'. switchViews True st = Inr st' \<and> currIndex st' = 0"
    using switchViews_next_step [OF assms(2,3)] by simp
next
  let ?N = "int (length (activePoints st))"
  assume "currIndex st = 0"
  moreover have "0 < ?N" using assms(1) by linarith
  then have "- 1 mod ?N = ?N - 1" by (rule zmod_minus1)
  ultimately show "\<exists>st'. switchViews False st = Inr st' \<and> currIndex st' = ?N - 1"
    using switchViews_previous_step [OF assms(2,3)] by simp
next
  show "\<exists>st'. press (length (activePoints st)) True st = Inr st' \<and> currIndex st' = currIndex st"
    using press_next_index [OF assms(2,3), of "length (activePoints st)"] assms(2,3) by auto
next
  let ?N = "int (length (activePoints st))"
  let ?st1 = "(transition_coords (activePoints st ! nat ((currIndex st + 1) mod ?N)) st)
                  \<lparr>currIndex := (currIndex st + 1) mod ?N\<rparr>"
  have step: "switchViews True st = Inr ?st1"
    using assms(2,3) by (rule switchViews_next_step)
  have pts: "activePoints ?st1 = activePoints st" by (simp add: transition_coords_def)
  have pos: "0 < ?N" using assms by linarith
  have r1: "0 \<le> currIndex ?st1" using pos by simp
  have r2: "currIndex ?st1 < int (length (activePoints ?st1))" using pos pts by simp
  have ret: "(currIndex ?st1 - 1) mod int (length (activePoints ?st1)) = currIndex st"
    using assms(2,3) pts by (simp add: mod_simps)
  show "\<exists>st' st''. switchViews True st = Inr st' \<and> switchViews False st' = Inr st''
             \<and> currIndex st'' = currIndex st"
    using step switchViews_previous_step [OF r1 r2] ret by simp
qed

theorem switchViews_cyclic_witness:
  "1 \<le> length (activePoints three_points)
   \<and> 0 \<le> currIndex three_points
   \<and> currIndex three_points = int (length (activePoints three_points)) - 1
   \<and> (\<exists>st'. switchViews True three_points = Inr st' \<and> currIndex st' = 0)
   \<and> (\<exists>st'. press 3 True three_points = Inr st' \<and> currIndex st' = 2)
   \<and> (\<exists>st' st''. switchViews True three_points = Inr st' \<and> switchViews False st' = Inr st''
         \<and> currIndex st'' = 2)
   \<and> currIndex (three_points\<lparr>currIndex := 0\<rparr>) = 0
   \<and> (\<exists>st'. switchViews False (three_points\<lparr>currIndex := 0\<rparr>) = Inr st' \<and> currIndex st' = 2)"
proof -
  have a: "1 \<le> length (activePoints three_points)" "0 \<le> currIndex three_points"
    "currIndex three_points < int (length (activePoints three_points))"
    by (simp_all add: three_points_def)
  have b: "1 \<le> length (activePoints (three_points\<lparr>currIndex := 0\<rparr>))"
    "0 \<le> currIndex (three_points\<lparr>currIndex := 0\<rparr>)"
    "currIndex (three_points\<lparr>currIndex := 0\<rparr>) < int (length (activePoints (three_points\<lparr>currIndex := 0\<rparr>)))"
    by (simp_all add: three_points_def)
  have c: "currIndex three_points = int (length (activePoints three_points)) - 1"
    "length (activePoints three_points) = 3" "currIndex three_points = 2"
    "currIndex (three_points\<lparr>currIndex := 0\<rparr>) = 0"
    "int (length (activePoints (three_points\<lparr>currIndex := 0\<rparr>))) - 1 = 2"
    by (simp_all add: three_points_def)
  show ?thesis
    using switchViews_cyclic [OF a] switchViews_cyclic [OF b] a c by simp
qed

text \<open>
  Claim C8, evaluated on the code. With no points in \<open>activePoints\<close>, next and previous
  both read the vector outside its bounds: index 0 for next or for a wrapped index, index
  -1 otherwise.
\<close>

theorem switchViews_empty:
  assumes "activePoints st = []"
  shows "switchViews next st = Inl vector_out_of_bounds"
  using assms by (simp add: switchViews_def subscript_def Let_def)

theorem switchViews_empty_witness:
  "activePoints fresh = []
   \<and> switchViews True fresh = Inl vector_out_of_bounds
   \<and> switchViews False fresh = Inl vector_out_of_bounds"
proof -
  have h: "activePoints fresh = []" by (simp add: fresh_def)
  show ?thesis
    using switchViews_empty [OF h, of True] switchViews_empty [OF h, of False] h by simp
qed

subsection \<open>Searching\<close>

text \<open>
  Claim C9, as the code has it. A search whose answer is not empty and holds only records
  with parsable coordinates succeeds, replaces \<open>activePoints\<close> by the points of the new
  entries in their order, and at once hands the point at index 0 of the new list to the
  view as the focus. \<open>currIndex\<close> keeps the value it had before the search.
\<close>

theorem searchHandler_focus_first:
  assumes "src (requests st @ [Args text [] [] [] [] [] ''20'' (to_string (page * 20)) False, NoArgs]) \<noteq> []"
    and "\<forall>e \<in> set (src (requests st @ [Args text [] [] [] [] [] ''20'' (to_string (page * 20)) False, NoArgs])).
           parsable stod e"
  shows "\<exists>st'. searchHandler stod src text page st = Inr st'
           \<and> activePoints st' \<noteq> []
           \<and> map (read_point stod \<circ> fst)
                 (count_points (src (requests st @
                    [Args text [] [] [] [] [] ''20'' (to_string (page * 20)) False, NoArgs])))
               = map Inr (activePoints st')
           \<and> viewpoints st' = viewpoints st @ [activePoints st' ! 0]
           \<and> currIndex st' = currIndex st"
proof -
  let ?evs = "src (requests st @ [Args text [] [] [] [] [] ''20'' (to_string (page * 20)) False, NoArgs])"
  from place_markers_all_parsable [OF assms(2), of 0] obtain gs ps where
    r: "place_markers stod 0 (count_points ?evs) = Inr (gs, ps)" by blast
  have m: "map (read_point stod \<circ> fst) (count_points ?evs) = map Inr ps"
    using r by (rule place_markers_points)
  have "length ps = length (count_points ?evs)" using r by (rule place_markers_length)
  then have ne: "ps \<noteq> []" using assms(1) by (auto simp: count_points_Nil)
  show ?thesis using r m ne assms(1) by (simp add: searchHandler_eq Let_def)
qed

theorem searchHandler_focus_first_witness:
  "first_then scenario [ev ''50.0'' ''60.0'']
      (requests after_first_search @ [Args ''rock'' [] [] [] [] [] ''20'' (to_string (0 * 20)) False, NoArgs]) \<noteq> []
   \<and> list_all (parsable stod_decimal) (first_then scenario [ev ''50.0'' ''60.0'']
      (requests after_first_search @ [Args ''rock'' [] [] [] [] [] ''20'' (to_string (0 * 20)) False, NoArgs]))
   \<and> (\<exists>st'. searchHandler stod_decimal (first_then scenario [ev ''50.0'' ''60.0'']) ''rock'' 0
              after_first_search = Inr st'
           \<and> viewpoints st' = viewpoints after_first_search @ [activePoints st' ! 0]
           \<and> currIndex st' = currIndex after_first_search)"
proof -
  have a: "first_then scenario [ev ''50.0'' ''60.0'']
      (requests after_first_search @ [Args ''rock'' [] [] [] [] [] ''20'' (to_string (0 * 20)) False, NoArgs]) \<noteq> []"
    by (simp add: first_then_def after_first_search_def)
  have b: "\<forall>e \<in> set (first_then scenario [ev ''50.0'' ''60.0'']
      (requests after_first_search @ [Args ''rock'' [] [] [] [] [] ''20'' (to_string (0 * 20)) False, NoArgs])).
           parsable stod_decimal e"
    by (simp add: first_then_def after_first_search_def eval_defs)
  have b': "list_all (parsable stod_decimal) (first_then scenario [ev ''50.0'' ''60.0'']
      (requests after_first_search @ [Args ''rock'' [] [] [] [] [] ''20'' (to_string (0 * 20)) False, NoArgs]))"
    using b by (simp only: list_all_iff)
  show ?thesis
    using searchHandler_focus_first
            [of "first_then scenario [ev ''50.0'' ''60.0'']" after_first_search "''rock''" 0
                stod_decimal, OF a b] a b'
    by blast
qed

text \<open>
  A search issued while the third marker is in focus: the new list has two points, the
  focus goes to its point 0, and \<open>currIndex\<close> is still 2.
\<close>

theorem cursor_not_reset_counterexample:
  "searchHandler stod_decimal (serving scenario) ''jazz'' 0 three_points
     = Inr (three_points\<lparr>results := 6, activePoints := [Point 20 10, Point 40 30],
              overlays := [[Marker (Point 20 10) 0, Circle (Point 20 10), Label (Point 20 10) 2,
                            Marker (Point 40 30) 1]],
              viewpoints := [Point 20 10],
              requests := [Args ''jazz'' [] [] [] [] [] ''20'' ''0'' False, NoArgs]\<rparr>)
   \<and> currIndex three_points = 2"
  by (simp add: three_points_def run_defs)

text \<open>
  Claim C10, evaluated on the code. A search answered with no records returns from
  \<open>createGraphics\<close> before \<open>activePoints.clear()\<close>: the two points of the search before
  are still in \<open>activePoints\<close> while the overlay is empty, and the focus is moved to the
  old point 0. On a controller without points the same search reads \<open>activePoints[0]\<close>
  outside the vector.
\<close>

theorem empty_search_keeps_points:
  "searchHandler stod_decimal (serving []) ''opera'' 0 after_first_search
     = Inr (after_first_search\<lparr>overlays := [[]],
              viewpoints := [Point 20 10, Point 20 10],
              requests := [Args ''jazz'' [] [] [] [] [] ''20'' ''0'' False, NoArgs,
                           Args ''opera'' [] [] [] [] [] ''20'' ''0'' False, NoArgs]\<rparr>)
   \<and> activePoints after_first_search = [Point 20 10, Point 40 30]
   \<and> searchHandler stod_decimal (serving []) ''opera'' 0 fresh = Inl vector_out_of_bounds"
  by (simp add: after_first_search_def fresh_def run_defs)

end
